theory Spec2Isabelle
  imports Complex_Main
begin

section \<open>JavaScript numbers and the way the page prints them\<close>

text \<open>
  A JavaScript number that arrives through JSON or through \<open>File.size\<close> is a finite
  double, hence a rational; the model takes the reals, which contain them all.
  Strings are lists of code units; every code unit of the page's literals is below 256
  (\<open>CHR 0xE1\<close> is a-acute, \<open>CHR 0xF3\<close> is o-acute).
\<close>

type_synonym number = real

definition digitChar :: "nat \<Rightarrow> char" where
  "digitChar d = ''0123456789'' ! d"

text \<open>The decimal digits of a non-negative integer, most significant first.\<close>

fun natToString :: "nat \<Rightarrow> string" where
  "natToString n =
     (if n < 10 then [digitChar n] else natToString (n div 10) @ [digitChar (n mod 10)])"

declare natToString.simps [simp del]

text \<open>
  \<open>Number.prototype.toFixed(2)\<close>, after ECMA-262: the sign is taken off, a magnitude of
  \<open>10^21\<close> or more is printed as \<open>ToString\<close> prints it (exponent notation, which
  is not modelled: \<open>expo\<close> stands for it), and otherwise \<open>n\<close> is the integer for which
  \<open>n / 100 - x\<close> is closest to zero, the larger one on a tie; its digits are padded
  with zeros to three and a point goes before the last two.
\<close>

definition roundHundredths :: "number \<Rightarrow> nat" where
  "roundHundredths x = nat \<lfloor>\<bar>x\<bar> * 100 + 1 / 2\<rfloor>"

definition padded :: "nat \<Rightarrow> string" where
  "padded n =
     (let m = natToString n
      in if length m \<le> 2 then replicate (3 - length m) (CHR ''0'') @ m else m)"

definition fixedDigits :: "nat \<Rightarrow> string" where
  "fixedDigits n =
     (let m = padded n;
          k = length m
      in take (k - 2) m @ ''.'' @ drop (k - 2) m)"

definition toFixed2 :: "(number \<Rightarrow> string) \<Rightarrow> number \<Rightarrow> string" where
  "toFixed2 expo x =
     (if x < 0 then ''-'' else '''') @
     (if 10 ^ 21 \<le> \<bar>x\<bar> then expo \<bar>x\<bar> else fixedDigits (roundHundredths x))"

text \<open>
  \<open>`${parseFloat(s)}`\<close> for a string \<open>s\<close> that \<open>toFixed(2)\<close> produced: the value is
  read back and printed in the shortest form, which drops the zeros that end the
  fraction and a point left bare; minus zero prints as \<open>0\<close>; a string in exponent notation is
  printed as it was.
\<close>

definition trimFixed :: "string \<Rightarrow> string" where
  "trimFixed s =
     (if CHR ''.'' \<notin> set s then s
      else let t = rev (dropWhile (\<lambda>c. c = CHR ''0'') (rev s));
               u = (if t \<noteq> [] \<and> last t = CHR ''.'' then butlast t else t)
           in if u = ''-0'' then ''0'' else u)"

section \<open>Reading a printed amount back\<close>

text \<open>
  What a string of the form \<open>d...d.dd\<close>, with or without a minus sign, denotes, and the
  rounding to two decimals that the specification calls \<open>round2\<close>: to the nearest
  hundredth, a tie away from zero. These definitions are not the page's; the page's
  output is compared with them.
\<close>

definition isDigit :: "char \<Rightarrow> bool" where
  "isDigit c = (c \<in> set ''0123456789'')"

definition twoDecimals :: "string \<Rightarrow> bool" where
  "twoDecimals s =
     (let k = length s
      in 4 \<le> k \<and> s ! (k - 3) = CHR ''.'' \<and>
         list_all isDigit (take (k - 3) s) \<and> list_all isDigit (drop (k - 2) s))"

definition digitValue :: "char \<Rightarrow> nat" where
  "digitValue c = of_char c - 48"

definition natOfDigits :: "string \<Rightarrow> nat" where
  "natOfDigits ds = foldl (\<lambda>a c. 10 * a + digitValue c) 0 ds"

definition fixedValue :: "string \<Rightarrow> real" where
  "fixedValue s =
     (let k = length s
      in real (natOfDigits (take (k - 3) s)) + real (natOfDigits (drop (k - 2) s)) / 100)"

text \<open>
  The strict reading of a printed amount: an optional minus sign, then digits, a point and
  exactly two digits, with no zero before the integer part unless that part is the single
  digit 0. Any other string is not read. The result is the sign that was printed and the
  magnitude. The reading is injective on the strings it accepts (\<open>parseFixed2_inj\<close>
  below), so a sign and a magnitude determine the string.
\<close>

definition canonicalFixed :: "string \<Rightarrow> bool" where
  "canonicalFixed f = (twoDecimals f \<and> (length f = 4 \<or> hd f \<noteq> CHR ''0''))"

definition parseFixed2 :: "string \<Rightarrow> (bool \<times> real) option" where
  "parseFixed2 s =
     (let neg = (s \<noteq> [] \<and> hd s = CHR ''-'');
          f = (if neg then tl s else s)
      in if canonicalFixed f then Some (neg, fixedValue f) else None)"


definition round2 :: "real \<Rightarrow> real" where
  "round2 x = sgn x * (of_int \<lfloor>\<bar>x\<bar> * 100 + 1 / 2\<rfloor> / 100)"

section \<open>formatBytes\<close>

text \<open>
  \<open>Math.floor(Math.log(bytes) / Math.log(k))\<close> for an integer \<open>bytes \<ge> 1\<close>, at the
  mathematical value of the quotient of logarithms: how often \<open>bytes\<close> can be divided by
  \<open>k\<close> before it falls below \<open>k\<close>.
\<close>

fun floorLog :: "nat \<Rightarrow> nat \<Rightarrow> nat" where
  "floorLog k n = (if k < 2 \<or> n < k then 0 else Suc (floorLog k (n div k)))"

declare floorLog.simps [simp del]

definition sizes :: "string list" where
  "sizes = [''Bytes'', ''KB'', ''MB'']"

text \<open>\<open>sizes[i]\<close> inside a template literal: an index past the end reads \<open>undefined\<close>.\<close>

definition sizeUnit :: "nat \<Rightarrow> string" where
  "sizeUnit i = (if i < length sizes then sizes ! i else ''undefined'')"

definition formatBytes :: "(number \<Rightarrow> string) \<Rightarrow> nat \<Rightarrow> string" where
  "formatBytes expo bytes =
     (if bytes = 0 then ''0 KB''
      else let k = 1024;
               i = floorLog k bytes
           in trimFixed (toFixed2 expo (real bytes / real (k ^ i))) @ '' '' @ sizeUnit i)"

section \<open>The product of two doubles\<close>

text \<open>
  The quantity and the unit price of an item are finite doubles, and line 324 multiplies
  them before \<open>toFixed(2)\<close> sees the product, so the product is rounded to a double
  first. A finite double is an integer mantissa times a power of two (below \<open>2^53\<close> in
  magnitude, with an exponent from -1074 to 971). The product of two of them is the exact
  product rounded as IEEE 754 binary64 rounds: to 53 significant bits, or to a multiple
  of \<open>2^-1074\<close> where the result is subnormal, a tie to the even mantissa, and to an
  infinity when the rounded magnitude reaches \<open>2^1024\<close> (a magnitude \<open>q * 2^e\<close> with
  \<open>q > 0\<close> reaches it exactly when the bits of \<open>q\<close> and \<open>e\<close> add up to more than
  1024). The sign of a zero is not kept: \<open>toFixed\<close> prints both zeros alike.
\<close>

record Double =
  mantissa :: int
  exponent :: int

definition scale :: "int \<Rightarrow> int \<Rightarrow> real" where
  "scale m e = (if 0 \<le> e then of_int m * 2 ^ nat e else of_int m / 2 ^ nat (- e))"

definition valueOf :: "Double \<Rightarrow> real" where
  "valueOf d = scale (mantissa d) (exponent d)"

datatype jsnumber = Fin real | PosInf | NegInf

text \<open>The number of bits of a natural number: 0 for 0, and \<open>k\<close> from \<open>2^(k-1)\<close> up to \<open>2^k - 1\<close>.\<close>

definition bitLength :: "nat \<Rightarrow> nat" where
  "bitLength a = (if a = 0 then 0 else Suc (floorLog 2 a))"

text \<open>\<open>a / 2^s\<close> rounded to the nearest integer, a tie to the even one.\<close>

definition roundHalfEven :: "nat \<Rightarrow> nat \<Rightarrow> nat" where
  "roundHalfEven a s =
     (let q = a div 2 ^ s;
          r = a mod 2 ^ s;
          h = 2 ^ (s - 1)
      in if h < r \<or> (r = h \<and> odd q) then q + 1 else q)"

text \<open>
  The double nearest to \<open>M * 2^E\<close>: \<open>s\<close> is the number of low bits of \<open>M\<close> that do
  not fit, \<open>q\<close> the rounded mantissa and \<open>e\<close> its exponent.
\<close>

definition roundToDouble :: "int \<Rightarrow> int \<Rightarrow> jsnumber" where
  "roundToDouble M E =
     (let a = nat \<bar>M\<bar>;
          s = max (int (bitLength a) - 53) (- 1074 - E);
          q = (if 0 < s then roundHalfEven a (nat s) else a);
          e = (if 0 < s then E + s else E)
      in if 0 < q \<and> 1024 < int (bitLength q) + e then (if M < 0 then NegInf else PosInf)
         else Fin (scale (if M < 0 then - int q else int q) e))"

definition dmul :: "Double \<Rightarrow> Double \<Rightarrow> jsnumber" where
  "dmul a b = roundToDouble (mantissa a * mantissa b) (exponent a + exponent b)"

text \<open>\<open>toFixed(2)\<close> of a number that may be infinite.\<close>

definition toFixedNumber :: "(number \<Rightarrow> string) \<Rightarrow> jsnumber \<Rightarrow> string" where
  "toFixedNumber expo n =
     (case n of Fin x \<Rightarrow> toFixed2 expo x | PosInf \<Rightarrow> ''Infinity'' | NegInf \<Rightarrow> ''-Infinity'')"

section \<open>The extraction result and its rendering\<close>

text \<open>
  The interfaces of the page. A field of type \<open>T | null\<close> is an option; \<open>data\<close>,
  \<open>extractedData\<close> and \<open>confidence\<close> are options too, since the page reads them through
  \<open>?.\<close> and \<open>&&\<close>. The response body carries the \<open>status\<close> and \<open>message\<close> that
  \<open>processDocument\<close> reads besides the declared \<open>data\<close>. The quantity and the unit
  price of an item, which the page multiplies, are kept as doubles; the totals and the
  confidence, which it only prints, as the reals they denote.
\<close>

record DocumentItem =
  descripcion :: string
  cantidad :: Double
  precio_unitario :: Double

record Emisor =
  ruc :: "string option"
  razon_social :: string

record Documento =
  tipo :: "string option"
  numero' :: "string option"

record Cliente =
  nombre :: "string option"
  documento :: "Documento option"

record Totales =
  subtotal :: "number option"
  igv :: "number option"
  total' :: "number option"

record ExtractedData =
  tipo_documento :: string
  numero :: "string option"
  fecha_emision :: "string option"
  emisor :: Emisor
  cliente :: Cliente
  items :: "DocumentItem list"
  totales :: Totales

record ResponseData =
  extractedData :: "ExtractedData option"
  confidence :: "number option"
  rawText :: string

record Body =
  status :: "string option"
  message :: "string option"
  data :: "ResponseData option"

text \<open>\<open>a || b\<close> for a string or null \<open>a\<close>: null and the empty string are falsy.\<close>

definition orElse :: "string option \<Rightarrow> string \<Rightarrow> string" where
  "orElse a b = (case a of None \<Rightarrow> b | Some t \<Rightarrow> if t = [] then b else t)"

text \<open>A string or null inside a template literal: null prints as \<open>null\<close>.\<close>

definition templateValue :: "string option \<Rightarrow> string" where
  "templateValue a = (case a of None \<Rightarrow> ''null'' | Some t \<Rightarrow> t)"

text \<open>
  \<open>v ? `S/ ${v.toFixed(2)}` : placeholder\<close> for a number or null \<open>v\<close>: null and zero
  are falsy.
\<close>

definition money :: "(number \<Rightarrow> string) \<Rightarrow> number option \<Rightarrow> string \<Rightarrow> string" where
  "money expo v placeholder =
     (case v of
        None \<Rightarrow> placeholder
      | Some x \<Rightarrow> if x = 0 then placeholder else ''S/ '' @ toFixed2 expo x)"

definition documentoText :: "Documento option \<Rightarrow> string" where
  "documentoText d =
     (case d of
        None \<Rightarrow> ''No detectado''
      | Some doc \<Rightarrow> templateValue (tipo doc) @ '': '' @ templateValue (numero' doc))"

text \<open>
  One row of the items table (lines 319 to 326): the quantity as it is, the unit price
  through \<open>toFixed(2)\<close>, and the product of the two, a double, through \<open>toFixed(2)\<close>.
  The item may carry any further fields (the \<open>more\<close> part of the record): the row does
  not read them.
\<close>

record ItemRow =
  cantidadCell :: Double
  descripcionCell :: string
  precioCell :: string
  totalCell :: string

definition itemRow :: "(number \<Rightarrow> string) \<Rightarrow> 'a DocumentItem_scheme \<Rightarrow> ItemRow" where
  "itemRow expo item =
     \<lparr>cantidadCell = cantidad item,
      descripcionCell = descripcion item,
      precioCell = ''S/ '' @ toFixed2 expo (valueOf (precio_unitario item)),
      totalCell = ''S/ '' @ toFixedNumber expo (dmul (cantidad item) (precio_unitario item))\<rparr>"

text \<open>
  The block that \<open>result.data?.extractedData && (...)\<close> renders (lines 251 to 363): one
  text per field, and the items section, which \<open>items.length > 0 && (...)\<close> leaves out.
\<close>

record ExtractedView =
  tipoText :: string
  numeroText :: string
  fechaText :: string
  razonSocialText :: string
  rucText :: string
  nombreText :: string
  documentoCell :: string
  itemsSection :: "ItemRow list option"
  subtotalText :: string
  igvText :: string
  totalText :: string

definition renderExtracted :: "(number \<Rightarrow> string) \<Rightarrow> ExtractedData \<Rightarrow> ExtractedView" where
  "renderExtracted expo ed =
     \<lparr>tipoText = tipo_documento ed,
      numeroText = orElse (numero ed) ''No detectado'',
      fechaText = orElse (fecha_emision ed) ''No detectada'',
      razonSocialText = razon_social (emisor ed),
      rucText = orElse (ruc (emisor ed)) ''No detectado'',
      nombreText = orElse (nombre (cliente ed)) ''No detectado'',
      documentoCell = documentoText (documento (cliente ed)),
      itemsSection =
        (if items ed = [] then None else Some (map (itemRow expo) (items ed))),
      subtotalText = money expo (subtotal (totales ed)) ''No detectado'',
      igvText = money expo (igv (totales ed)) ''No aplica'',
      totalText = money expo (total' (totales ed)) ''No detectado''\<rparr>"



section \<open>The controller: state, handlers, events\<close>

text \<open>
  The state of \<open>Home\<close>: the four \<open>useState\<close> cells and the \<open>videoRef\<close>, then the world
  around it: every \<open>MediaStream\<close> that \<open>getUserMedia\<close> has handed out (a stream is the
  list of its tracks, \<open>True\<close> while a track is live; \<open>stop()\<close> is final), and the
  asynchronous operations that have been started and have not called back yet.
\<close>

record PreviewFile =
  name :: string
  type' :: string
  size' :: string
  preview :: string

record File =
  file_name :: string
  file_type :: string
  file_size :: nat

record Video =
  srcObject :: "nat option"

datatype task =
    GetUserMedia
  | ToBlob
  | ReadAsDataURL File
  | AwaitFetch PreviewFile
  | AwaitPost PreviewFile

datatype outcome =
    MediaGranted nat
  | MediaDenied
  | BlobReady "nat option"
  | ReadDone string
  | FetchDone bool
  | PostResolved Body
  | PostRejected "string option"

datatype effect = ConsoleError string | Alert string | Post string string

datatype caught = AxiosError "string option" | PlainError string

record State =
  selectedFile :: "PreviewFile option"
  isProcessing :: bool
  result :: "Body option"
  isCameraActive :: bool
  videoRef :: "Video option"
  streams :: "bool list list"
  pending :: "task list"

definition initial :: State where
  "initial =
     \<lparr>selectedFile = None, isProcessing = False, result = None, isCameraActive = False,
      videoRef = None, streams = [], pending = []\<rparr>"

text \<open>
  A render: the \<open>video\<close> element is in the tree exactly while \<open>isCameraActive\<close> holds
  (line 199), so React sets \<open>videoRef.current\<close> to a fresh element when the flag turns on
  and back to null when it turns off.
\<close>

definition commit :: "State \<Rightarrow> State" where
  "commit s =
     s\<lparr>videoRef :=
         (if isCameraActive s
          then (case videoRef s of None \<Rightarrow> Some \<lparr>srcObject = None\<rparr> | Some v \<Rightarrow> Some v)
          else None)\<rparr>"

subsection \<open>activateCamera (lines 94 to 105)\<close>

definition activateCamera :: "State \<Rightarrow> State" where
  "activateCamera s = s\<lparr>pending := pending s @ [GetUserMedia]\<rparr>"

text \<open>
  What follows the \<open>await\<close>: \<open>MediaGranted n\<close> is a new stream of \<open>n\<close> live tracks,
  \<open>MediaDenied\<close> a rejection (no permission, no device).
\<close>

definition activateCamera_resumed :: "outcome \<Rightarrow> State \<Rightarrow> State \<times> effect list" where
  "activateCamera_resumed out s =
     (case out of
        MediaGranted n \<Rightarrow>
          (let stream = length (streams s);
               s1 = s\<lparr>streams := streams s @ [replicate n True]\<rparr>
           in case videoRef s1 of
                None \<Rightarrow> (s1, [])
              | Some v \<Rightarrow>
                  (s1\<lparr>videoRef := Some (v\<lparr>srcObject := Some stream\<rparr>),
                      isCameraActive := True\<rparr>, []))
      | MediaDenied \<Rightarrow>
          (s, [ConsoleError (''Error al acceder a la c'' @ [CHR 0xE1] @ ''mara:''),
               Alert (''No se pudo acceder a la c'' @ [CHR 0xE1] @ ''mara'')])
      | _ \<Rightarrow> (s, []))"

subsection \<open>handleFileSelect, handleFileUpload (lines 72 to 92)\<close>

text \<open>
  \<open>handleFileSelect\<close> starts the read; \<open>onloadend\<close> is the callback that the reader runs
  with its result, a data URI, and it alone writes \<open>selectedFile\<close>.
\<close>

definition handleFileSelect :: "File \<Rightarrow> State \<Rightarrow> State" where
  "handleFileSelect file s = s\<lparr>pending := pending s @ [ReadAsDataURL file]\<rparr>"

definition onloadend :: "(number \<Rightarrow> string) \<Rightarrow> File \<Rightarrow> string \<Rightarrow> State \<Rightarrow> State" where
  "onloadend expo file res s =
     s\<lparr>selectedFile :=
         Some \<lparr>name = file_name file, type' = file_type file,
               size' = formatBytes expo (file_size file), preview = res\<rparr>\<rparr>"

definition handleFileUpload :: "File option \<Rightarrow> State \<Rightarrow> State" where
  "handleFileUpload f s = (case f of None \<Rightarrow> s | Some file \<Rightarrow> handleFileSelect file s)"

subsection \<open>captureImage (lines 107 to 127)\<close>

definition stopTracks :: "nat \<Rightarrow> bool list list \<Rightarrow> bool list list" where
  "stopTracks i ss = (if i < length ss then ss[i := map (\<lambda>t. False) (ss ! i)] else ss)"

text \<open>
  The synchronous part; \<open>ctx\<close> tells whether \<open>getContext('2d')\<close> gave a context. The
  blob arrives later, in the callback of \<open>toBlob\<close>.
\<close>

definition captureImage :: "bool \<Rightarrow> State \<Rightarrow> State" where
  "captureImage ctx s =
     (case videoRef s of
        None \<Rightarrow> s
      | Some v \<Rightarrow>
          (let s1 = (if ctx then s\<lparr>pending := pending s @ [ToBlob]\<rparr> else s);
               s2 = (case srcObject v of
                       None \<Rightarrow> s1
                     | Some stream \<Rightarrow> s1\<lparr>streams := stopTracks stream (streams s1)\<rparr>)
           in s2\<lparr>isCameraActive := False\<rparr>))"

definition toBlobCallback :: "nat option \<Rightarrow> State \<Rightarrow> State" where
  "toBlobCallback blob s =
     (case blob of
        None \<Rightarrow> s
      | Some n \<Rightarrow>
          handleFileSelect
            \<lparr>file_name = ''captura.jpg'', file_type = ''image/jpeg'', file_size = n\<rparr> s)"

subsection \<open>processDocument (lines 129 to 158)\<close>

definition fallback :: string where
  "fallback = ''Error al procesar el documento''"

text \<open>
  \<open>apiError.response?.data?.message || fallback\<close>: an error that axios raised may carry
  the server's message; an \<open>Error\<close> thrown inside the \<open>try\<close> block has no \<open>response\<close>.
\<close>

definition userMessage :: "caught \<Rightarrow> string" where
  "userMessage e = (case e of AxiosError m \<Rightarrow> orElse m fallback | PlainError m \<Rightarrow> fallback)"

definition catchFinally :: "caught \<Rightarrow> State \<Rightarrow> State \<times> effect list" where
  "catchFinally e s =
     (s\<lparr>isProcessing := False\<rparr>,
      [ConsoleError ''Error al procesar el documento:'', Alert (userMessage e)])"

text \<open>Up to the first \<open>await\<close>; the closure keeps the \<open>selectedFile\<close> it was called with.\<close>

definition processDocument :: "State \<Rightarrow> State" where
  "processDocument s =
     (case selectedFile s of
        None \<Rightarrow> s
      | Some pf \<Rightarrow> s\<lparr>isProcessing := True, pending := pending s @ [AwaitFetch pf]\<rparr>)"

text \<open>
  After \<open>fetch(selectedFile.preview)\<close> and \<open>response.blob()\<close>, taken as one step: on
  success the POST is issued, a failure is an \<open>Error\<close> without \<open>response\<close>.
\<close>

definition processDocument_fetched :: "bool \<Rightarrow> PreviewFile \<Rightarrow> State \<Rightarrow> State \<times> effect list" where
  "processDocument_fetched ok pf s =
     (if ok then (s\<lparr>pending := pending s @ [AwaitPost pf]\<rparr>, [Post (name pf) (preview pf)])
      else catchFinally (PlainError ''Failed to fetch'') s)"

text \<open>
  After \<open>axios.post\<close>: it rejects on a network failure and on a status outside 2xx,
  with \<open>error.response?.data?.message\<close> as given; it resolves with the body otherwise,
  taken to be a JSON object. \<open>new Error(undefined)\<close> has the empty message.
\<close>

definition processDocument_posted :: "outcome \<Rightarrow> State \<Rightarrow> State \<times> effect list" where
  "processDocument_posted out s =
     (case out of
        PostRejected m \<Rightarrow> catchFinally (AxiosError m) s
      | PostResolved b \<Rightarrow>
          if status b = Some ''error''
          then catchFinally (PlainError (case message b of None \<Rightarrow> [] | Some m \<Rightarrow> m)) s
          else (s\<lparr>result := Some b, isProcessing := False\<rparr>, [])
      | _ \<Rightarrow> (s, []))"

subsection \<open>Events\<close>

text \<open>
  What can happen to the page: a click on one of its buttons, which the markup gates
  (\<open>disabled={isCameraActive}\<close> on the camera button, the capture button inside the block
  that \<open>isCameraActive\<close> renders, \<open>disabled={isProcessing}\<close> on the process button
  inside the block that \<open>selectedFile\<close> renders), a choice in the file picker, or the
  callback of one pending operation with its outcome. A render follows every handler.
\<close>

datatype event =
    ClickCamara
  | ClickCapturar bool
  | ChooseFile "File option"
  | ClickProcesar
  | Settle nat outcome

definition removeAt :: "nat \<Rightarrow> 'a list \<Rightarrow> 'a list" where
  "removeAt i xs = take i xs @ drop (Suc i) xs"

fun resume :: "(number \<Rightarrow> string) \<Rightarrow> task \<Rightarrow> outcome \<Rightarrow> State \<Rightarrow> (State \<times> effect list) option" where
  "resume expo GetUserMedia (MediaGranted n) s = Some (activateCamera_resumed (MediaGranted n) s)"
| "resume expo GetUserMedia MediaDenied s = Some (activateCamera_resumed MediaDenied s)"
| "resume expo ToBlob (BlobReady b) s = Some (toBlobCallback b s, [])"
| "resume expo (ReadAsDataURL f) (ReadDone r) s = Some (onloadend expo f r s, [])"
| "resume expo (AwaitFetch pf) (FetchDone ok) s = Some (processDocument_fetched ok pf s)"
| "resume expo (AwaitPost pf) (PostResolved b) s = Some (processDocument_posted (PostResolved b) s)"
| "resume expo (AwaitPost pf) (PostRejected m) s = Some (processDocument_posted (PostRejected m) s)"
| "resume expo t out s = None"

definition step :: "(number \<Rightarrow> string) \<Rightarrow> event \<Rightarrow> State \<Rightarrow> State \<times> effect list" where
  "step expo e s =
     (case e of
        ClickCamara \<Rightarrow>
          if isCameraActive s then (s, []) else (commit (activateCamera s), [])
      | ClickCapturar ctx \<Rightarrow>
          if isCameraActive s then (commit (captureImage ctx s), []) else (s, [])
      | ChooseFile f \<Rightarrow> (commit (handleFileUpload f s), [])
      | ClickProcesar \<Rightarrow>
          if selectedFile s \<noteq> None \<and> \<not> isProcessing s
          then (commit (processDocument s), []) else (s, [])
      | Settle i out \<Rightarrow>
          if i < length (pending s)
          then (case resume expo (pending s ! i) out (s\<lparr>pending := removeAt i (pending s)\<rparr>) of
                  None \<Rightarrow> (s, [])
                | Some (s1, fx) \<Rightarrow> (commit s1, fx))
          else (s, []))"

inductive reachable :: "(number \<Rightarrow> string) \<Rightarrow> State \<Rightarrow> bool" for expo where
  reach_initial: "reachable expo initial"
| reach_step: "reachable expo s \<Longrightarrow> reachable expo (fst (step expo e s))"

text \<open>The submissions under way: started by \<open>processDocument\<close>, not yet settled.\<close>

fun isSubmission :: "task \<Rightarrow> bool" where
  "isSubmission (AwaitFetch pf) = True"
| "isSubmission (AwaitPost pf) = True"
| "isSubmission t = False"

definition inFlight :: "State \<Rightarrow> nat" where
  "inFlight s = length (filter isSubmission (pending s))"

section \<open>Sample inputs\<close>

text \<open>
  Concrete values at which the statements below are evaluated. \<open>noExpo\<close> prints every
  magnitude of \<open>10^21\<close> or more as \<open>1e+21\<close>; none of the samples reaches it.
\<close>

definition noExpo :: "number \<Rightarrow> string" where
  "noExpo x = ''1e+21''"

definition sampleEmpty :: ExtractedData where
  "sampleEmpty =
     \<lparr>tipo_documento = ''BOLETA'', numero = None, fecha_emision = None,
      emisor = \<lparr>ruc = None, razon_social = ''ACME S.A.C.''\<rparr>,
      cliente = \<lparr>nombre = None, documento = None\<rparr>,
      items = [],
      totales = \<lparr>subtotal = None, igv = Some 0, total' = Some (2469 / 2)\<rparr>\<rparr>"

definition sampleZero :: ExtractedData where
  "sampleZero =
     \<lparr>tipo_documento = ''BOLETA'', numero = Some ''B001-17'',
      fecha_emision = Some ''2024-05-01'',
      emisor = \<lparr>ruc = Some ''20123456789'', razon_social = ''ACME S.A.C.''\<rparr>,
      cliente = \<lparr>nombre = Some ''Ana'', documento = Some \<lparr>tipo = None, numero' = None\<rparr>\<rparr>,
      items = [\<lparr>descripcion = ''Cuaderno'', cantidad = \<lparr>mantissa = 3, exponent = 0\<rparr>,
                precio_unitario = \<lparr>mantissa = 5, exponent = - 1\<rparr>\<rparr>],
      totales = \<lparr>subtotal = Some 0, igv = None, total' = Some 0\<rparr>\<rparr>"

definition sampleFull :: ExtractedData where
  "sampleFull =
     \<lparr>tipo_documento = ''FACTURA'', numero = Some ''F001-23'',
      fecha_emision = Some ''2024-05-01'',
      emisor = \<lparr>ruc = Some ''20123456789'', razon_social = ''ACME S.A.C.''\<rparr>,
      cliente = \<lparr>nombre = Some ''Ana'',
                 documento = Some \<lparr>tipo = Some ''DNI'', numero' = Some ''12345678''\<rparr>\<rparr>,
      items = [\<lparr>descripcion = ''Cuaderno'', cantidad = \<lparr>mantissa = 40, exponent = 0\<rparr>,
                precio_unitario = \<lparr>mantissa = 5, exponent = - 1\<rparr>\<rparr>],
      totales = \<lparr>subtotal = Some 100, igv = Some 18, total' = Some 118\<rparr>\<rparr>"

text \<open>
  The page after the camera button was clicked, a stream of one track was granted, and
  \<open>sampleFile\<close> was picked and read.
\<close>

definition sampleLeaked :: State where
  "sampleLeaked =
     \<lparr>selectedFile =
        Some \<lparr>name = ''recibo.jpg'', type' = ''image/jpeg'', size' = ''488.28 KB'',
              preview = ''data:image/jpeg;base64,AAAA''\<rparr>,
      isProcessing = False, result = None, isCameraActive = False, videoRef = None,
      streams = [[True]], pending = []\<rparr>"



definition sampleFile :: File where
  "sampleFile = \<lparr>file_name = ''recibo.jpg'', file_type = ''image/jpeg'', file_size = 500000\<rparr>"

text \<open>The page after a file was picked and read and the process button was clicked.\<close>

definition sampleSubmitting :: State where
  "sampleSubmitting =
     fst (step noExpo ClickProcesar
       (fst (step noExpo (Settle 0 (ReadDone ''data:image/jpeg;base64,AAAA''))
         (fst (step noExpo (ChooseFile (Some sampleFile)) initial)))))"


section \<open>Digits and two-decimal strings\<close>

lemma digitChar_isDigit: "d < 10 \<Longrightarrow> isDigit (digitChar d)"
  unfolding isDigit_def digitChar_def by (rule nth_mem) simp

lemma digitValue_digitChar: "d < 10 \<Longrightarrow> digitValue (digitChar d) = d"
proof -
  assume "d < 10"
  then have "d \<in> {0,1,2,3,4,5,6,7,8,9}" by auto
  then show ?thesis by (auto simp: digitValue_def digitChar_def)
qed

lemma natToString_digits: "list_all isDigit (natToString n) \<and> natToString n \<noteq> []"
proof (induction n rule: natToString.induct)
  case (1 n)
  show ?case
  proof (cases "n < 10")
    case True
    then show ?thesis by (simp add: natToString.simps [of n] digitChar_isDigit)
  next
    case False
    then show ?thesis using 1 by (simp add: natToString.simps [of n] digitChar_isDigit)
  qed
qed

lemma natOfDigits_snoc: "natOfDigits (ds @ [c]) = 10 * natOfDigits ds + digitValue c"
  by (simp add: natOfDigits_def)

lemma natOfDigits_natToString: "natOfDigits (natToString n) = n"
proof (induction n rule: natToString.induct)
  case (1 n)
  show ?case
  proof (cases "n < 10")
    case True
    then show ?thesis
      by (simp add: natToString.simps [of n] natOfDigits_def digitValue_digitChar)
  next
    case False
    then show ?thesis using 1
      by (simp add: natToString.simps [of n] natOfDigits_snoc digitValue_digitChar)
  qed
qed

lemma natOfDigits_append:
  "natOfDigits (xs @ ys) = natOfDigits xs * 10 ^ length ys + natOfDigits ys"
proof (induction ys rule: rev_induct)
  case Nil
  then show ?case by (simp add: natOfDigits_def)
next
  case (snoc y ys)
  have "natOfDigits (xs @ ys @ [y]) = 10 * natOfDigits (xs @ ys) + digitValue y"
    using natOfDigits_snoc [of "xs @ ys" y] by simp
  then show ?case using snoc by (simp add: natOfDigits_snoc algebra_simps)
qed

lemma natOfDigits_zeros: "natOfDigits (replicate j (CHR ''0'') @ m) = natOfDigits m"
proof (induction j)
  case 0
  then show ?case by simp
next
  case (Suc j)
  have "natOfDigits (CHR ''0'' # (replicate j (CHR ''0'') @ m)) =
        natOfDigits (replicate j (CHR ''0'') @ m)"
    by (simp add: natOfDigits_def digitValue_def)
  then show ?case using Suc by simp
qed

lemma padded_props: "3 \<le> length (padded n) \<and> list_all isDigit (padded n) \<and> natOfDigits (padded n) = n"
proof -
  have z: "isDigit (CHR ''0'')" by (simp add: isDigit_def)
  have d: "list_all isDigit (natToString n)" and ne: "natToString n \<noteq> []"
    using natToString_digits by auto
  show ?thesis
    using d ne z
    by (auto simp: padded_def Let_def natOfDigits_zeros natOfDigits_natToString list_all_iff)
qed

lemma fixedDigits_padded:
  "fixedDigits n = take (length (padded n) - 2) (padded n) @ ''.'' @ drop (length (padded n) - 2) (padded n)"
  by (simp add: fixedDigits_def Let_def)

lemma fixedDigits_twoDecimals: "twoDecimals (fixedDigits n)"
proof -
  define p where "p = padded n"
  have l: "3 \<le> length p" and d: "list_all isDigit p" using padded_props by (auto simp: p_def)
  have f: "fixedDigits n = take (length p - 2) p @ ''.'' @ drop (length p - 2) p"
    by (simp add: fixedDigits_padded p_def)
  have len: "length (fixedDigits n) = length p + 1" using l by (simp add: f)
  have a: "fixedDigits n ! (length p - 2) = CHR ''.''"
    using l by (simp add: f nth_append)
  have b: "take (length p - 2) (fixedDigits n) = take (length p - 2) p"
    using l by (simp add: f)
  have c: "drop (length p - 1) (fixedDigits n) = drop (length p - 2) p"
    using l by (simp add: f Suc_diff_Suc)
  have "list_all isDigit (take (length p - 2) p)" "list_all isDigit (drop (length p - 2) p)"
    using d by (auto simp: list_all_iff dest: in_set_takeD in_set_dropD)
  then show ?thesis
    using l a b c by (simp add: twoDecimals_def Let_def len)
qed

lemma fixedValue_fixedDigits: "fixedValue (fixedDigits n) = real n / 100"
proof -
  define p where "p = padded n"
  have l: "3 \<le> length p" and v: "natOfDigits p = n" using padded_props by (auto simp: p_def)
  have f: "fixedDigits n = take (length p - 2) p @ ''.'' @ drop (length p - 2) p"
    by (simp add: fixedDigits_padded p_def)
  have len: "length (fixedDigits n) = length p + 1" using l by (simp add: f)
  have b: "take (length p - 2) (fixedDigits n) = take (length p - 2) p"
    using l by (simp add: f)
  have c: "drop (length p - 1) (fixedDigits n) = drop (length p - 2) p"
    using l by (simp add: f Suc_diff_Suc)
  have "natOfDigits (take (length p - 2) p @ drop (length p - 2) p) =
        natOfDigits (take (length p - 2) p) * 10 ^ length (drop (length p - 2) p) +
        natOfDigits (drop (length p - 2) p)"
    by (rule natOfDigits_append)
  then have "n = natOfDigits (take (length p - 2) p) * 100 + natOfDigits (drop (length p - 2) p)"
    using l v by simp
  then have "real n = real (natOfDigits (take (length p - 2) p)) * 100 +
      real (natOfDigits (drop (length p - 2) p))"
    by (metis of_nat_add of_nat_mult of_nat_numeral)
  then show ?thesis
    using b c by (simp add: fixedValue_def Let_def len)
qed

lemma fixedDigits_hd: "\<exists>c t. fixedDigits n = c # t \<and> c \<noteq> CHR ''-''"
proof -
  define p where "p = padded n"
  have l: "3 \<le> length p" and d: "list_all isDigit p" using padded_props by (auto simp: p_def)
  have pne: "p \<noteq> []" using l by auto
  have "isDigit (hd p)" using d pne by (cases p) auto
  then have h: "hd p \<noteq> CHR ''-''" by (auto simp: isDigit_def)
  have tne: "take (length p - 2) p \<noteq> []" using l pne by simp
  have f: "fixedDigits n = take (length p - 2) p @ ''.'' @ drop (length p - 2) p"
    by (simp add: fixedDigits_padded p_def)
  have "hd (fixedDigits n) = hd p" using tne l by (simp add: f hd_append)
  moreover have "fixedDigits n \<noteq> []" by (simp add: f)
  ultimately show ?thesis using h by (cases "fixedDigits n") auto
qed

lemma toFixed2_plain:
  assumes "\<bar>x\<bar> < 10 ^ 21"
  shows "toFixed2 expo x = (if x < 0 then ''-'' else '''') @ fixedDigits (roundHundredths x)"
  using assms by (simp add: toFixed2_def)



section \<open>The strict reading is injective and reads what toFixed prints\<close>



















lemma natToString_hd:
  "0 < n \<Longrightarrow> hd (natToString n) \<noteq> CHR ''0''"
proof (induction n rule: natToString.induct)
  case (1 n)
  show ?case
  proof (cases "n < 10")
    case True
    then have "n \<in> {1,2,3,4,5,6,7,8,9}" using 1 by auto
    then show ?thesis by (auto simp: natToString.simps [of n] digitChar_def)
  next
    case False
    then have "0 < n div 10" by simp
    then have "hd (natToString (n div 10)) \<noteq> CHR ''0''" using 1 False by simp
    moreover have "natToString (n div 10) \<noteq> []" using natToString_digits by simp
    ultimately show ?thesis using False by (simp add: natToString.simps [of n] hd_append)
  qed
qed

lemma fixedDigits_canonical: "canonicalFixed (fixedDigits n)"
proof -
  define p where "p = padded n"
  have l: "3 \<le> length p" using padded_props by (simp add: p_def)
  have f: "fixedDigits n = take (length p - 2) p @ ''.'' @ drop (length p - 2) p"
    by (simp add: fixedDigits_padded p_def)
  have len: "length (fixedDigits n) = length p + 1" using l by (simp add: f)
  have "length (fixedDigits n) = 4 \<or> hd (fixedDigits n) \<noteq> CHR ''0''"
  proof (cases "length (natToString n) \<le> 2")
    case True
    then have "length p = 3" by (simp add: p_def padded_def Let_def)
    then show ?thesis using len by simp
  next
    case False
    then have pn: "p = natToString n" by (simp add: p_def padded_def Let_def)
    have "0 < n"
    proof (rule ccontr)
      assume "\<not> 0 < n"
      then have "natToString n = [digitChar 0]" by (simp add: natToString.simps [of 0])
      then show False using False by simp
    qed
    then have "hd p \<noteq> CHR ''0''" using natToString_hd pn by simp
    moreover have "p \<noteq> []" using l by auto
    then have "hd (fixedDigits n) = hd p" using l by (simp add: f hd_append)
    ultimately show ?thesis by simp
  qed
  then show ?thesis using fixedDigits_twoDecimals by (simp add: canonicalFixed_def)
qed

lemma abs_round2: "\<bar>round2 x\<bar> = of_int \<lfloor>\<bar>x\<bar> * 100 + 1 / 2\<rfloor> / 100"
proof (cases "x = 0")
  case True
  then show ?thesis by (simp add: round2_def)
next
  case False
  have "0 \<le> (of_int \<lfloor>\<bar>x\<bar> * 100 + 1 / 2\<rfloor> / 100 :: real)" by simp
  then show ?thesis using False by (simp add: round2_def abs_mult)
qed

lemma toFixed2_parse:
  assumes "\<bar>x\<bar> < 10 ^ 21"
  shows "parseFixed2 (toFixed2 expo x) = Some (x < 0, \<bar>round2 x\<bar>)"
proof -
  define n where "n = roundHundredths x"
  have fl: "0 \<le> \<lfloor>\<bar>x\<bar> * 100 + 1 / 2\<rfloor>" by simp
  have rn: "real n = of_int \<lfloor>\<bar>x\<bar> * 100 + 1 / 2\<rfloor>"
    using fl by (simp add: n_def roundHundredths_def)
  have v: "fixedValue (fixedDigits n) = \<bar>round2 x\<bar>"
    using rn by (simp add: fixedValue_fixedDigits abs_round2)
  obtain c t where ct: "fixedDigits n = c # t" "c \<noteq> CHR ''-''"
    using fixedDigits_hd by blast
  show ?thesis
  proof (cases "x < 0")
    case True
    then have "toFixed2 expo x = CHR ''-'' # fixedDigits n"
      using assms by (simp add: toFixed2_plain n_def)
    then show ?thesis using True v fixedDigits_canonical by (simp add: parseFixed2_def)
  next
    case False
    then have "toFixed2 expo x = fixedDigits n"
      using assms by (simp add: toFixed2_plain n_def)
    then show ?thesis using False v ct fixedDigits_canonical [of n]
      by (simp add: parseFixed2_def)
  qed
qed

section \<open>The product of doubles is the product, rounded once\<close>

lemma scale_powr: "scale m e = of_int m * 2 powr (of_int e)"
proof (cases "0 \<le> e")
  case True
  then have "(2::real) powr (of_int e) = 2 ^ nat e"
    by (simp add: powr_realpow [symmetric])
  then show ?thesis using True by (simp add: scale_def)
next
  case False
  have n: "real (nat (- e)) = - of_int e" using False by simp
  have "(2::real) powr (of_int e) = 1 / 2 powr (- of_int e)"
    using powr_minus_divide [of 2 "- of_int e"] by simp
  also have "(2::real) powr (- of_int e) = 2 ^ nat (- e)"
    using powr_realpow [of 2 "nat (- e)"] n by simp
  finally have "(2::real) powr (of_int e) = 1 / 2 ^ nat (- e)" .
  then show ?thesis using False by (simp add: scale_def)
qed



lemma floorLog2_bounds:
  "0 < a \<Longrightarrow> 2 ^ floorLog 2 a \<le> a \<and> a < 2 ^ Suc (floorLog 2 a)"
proof (induction "2::nat" a rule: floorLog.induct)
  case (1 n)
  show ?case
  proof (cases "n < 2")
    case True
    then show ?thesis using 1(2) by (simp add: floorLog.simps [of 2 n])
  next
    case False
    then have "0 < n div 2" by simp
    then have ih: "2 ^ floorLog 2 (n div 2) \<le> n div 2 \<and> n div 2 < 2 ^ Suc (floorLog 2 (n div 2))"
      using 1(1) False by simp
    have f: "floorLog 2 n = Suc (floorLog 2 (n div 2))"
      using False by (simp add: floorLog.simps [of 2 n])
    have "2 * 2 ^ floorLog 2 (n div 2) \<le> n" using ih by linarith
    moreover have "n < 2 * 2 ^ Suc (floorLog 2 (n div 2))" using ih by linarith
    ultimately show ?thesis by (simp add: f)
  qed
qed

lemma bitLength_bounds:
  assumes "0 < a"
  shows "2 ^ (bitLength a - 1) \<le> a" "a < 2 ^ bitLength a"
  using floorLog2_bounds [OF assms] assms by (simp_all add: bitLength_def)



lemma scale_abs: "\<bar>scale M E\<bar> = scale (int (nat \<bar>M\<bar>)) E"
  by (simp add: scale_powr abs_mult)







text \<open>The test for an overflow compares the rounded magnitude with \<open>2^1024\<close>.\<close>

lemma overflow_test:
  assumes "0 < q"
  shows "(1024 < int (bitLength q) + e) = (2 ^ 1024 \<le> scale (int q) e)"
proof -
  define P where "P = (2::real) ^ 1024"
  have P: "P = 2 powr 1024" unfolding P_def using powr_realpow [of 2 1024] by simp
  have lo: "2 ^ (bitLength q - 1) \<le> q" and hi: "q < 2 ^ bitLength q"
    using bitLength_bounds [OF assms] by simp_all
  have b1: "1 \<le> bitLength q" using assms by (simp add: bitLength_def)
  have lo': "(2::real) powr (real (bitLength q) - 1) \<le> real q"
  proof -
    have "(2::real) ^ (bitLength q - 1) \<le> real q"
      using lo by (metis of_nat_le_iff of_nat_numeral of_nat_power)
    moreover have "real (bitLength q - 1) = real (bitLength q) - 1" using b1 by simp
    ultimately show ?thesis using powr_realpow [of 2 "bitLength q - 1"] by simp
  qed
  have hi': "real q < 2 powr (real (bitLength q))"
  proof -
    have "real q < 2 ^ bitLength q"
      using hi by (metis of_nat_less_iff of_nat_numeral of_nat_power)
    then show ?thesis by (simp add: powr_realpow)
  qed
  have sc: "scale (int q) e = real q * 2 powr (of_int e)" by (simp add: scale_powr)
  have pe: "0 < (2::real) powr (of_int e)" by simp
  show ?thesis
  proof
    assume "1024 < int (bitLength q) + e"
    then have "(1024::real) \<le> (real (bitLength q) - 1) + of_int e" by linarith
    then have "(2::real) powr 1024 \<le> 2 powr ((real (bitLength q) - 1) + of_int e)"
      by (simp only: powr_le_cancel_iff) 
    also have "\<dots> = 2 powr (real (bitLength q) - 1) * 2 powr (of_int e)" by (rule powr_add)
    also have "\<dots> \<le> real q * 2 powr (of_int e)" using lo' pe by (simp add: mult_right_mono)
    finally have "P \<le> scale (int q) e" by (simp only: P sc)
    then show "2 ^ 1024 \<le> scale (int q) e" by (simp only: P_def)
  next
    assume "2 ^ 1024 \<le> scale (int q) e"
    then have "P \<le> real q * 2 powr (of_int e)" by (simp only: P_def sc)
    also have "\<dots> < 2 powr (real (bitLength q)) * 2 powr (of_int e)"
      using hi' pe by (simp add: mult_strict_right_mono)
    also have "\<dots> = 2 powr (real (bitLength q) + of_int e)" by (rule powr_add [symmetric])
    finally have "(2::real) powr 1024 < 2 powr (real (bitLength q) + of_int e)" by (simp only: P)
    then have "(1024::real) < real (bitLength q) + of_int e" by (simp only: powr_less_cancel_iff) 
    then show "1024 < int (bitLength q) + e" by linarith
  qed
qed



section \<open>Properties of formatBytes\<close>

lemma floorLog_below_cube:
  assumes "n < 1024 ^ 3"
  shows "floorLog 1024 n < 3"
proof -
  have a: "n div 1024 < 1024 ^ 2" using assms by simp
  then have b: "n div 1024 div 1024 < 1024" by simp
  show ?thesis
    using b by (simp add: floorLog.simps [of 1024 n] floorLog.simps [of 1024 "n div 1024"]
        floorLog.simps [of 1024 "n div 1024 div 1024"])
qed

lemma formatBytes_units_below_GiB:
  assumes "n < 1024 ^ 3"
  shows "\<exists>p u. formatBytes expo n = p @ '' '' @ u \<and> u \<in> set sizes"
proof (cases "n = 0")
  case True
  have "formatBytes expo n = ''0'' @ '' '' @ ''KB''" using True by (simp add: formatBytes_def)
  moreover have "''KB'' \<in> set sizes" by (simp add: sizes_def)
  ultimately show ?thesis by blast
next
  case False
  have i: "floorLog 1024 n < length sizes"
    using floorLog_below_cube [OF assms] by (simp add: sizes_def)
  then have "sizes ! floorLog 1024 n \<in> set sizes" by (rule nth_mem)
  moreover have "formatBytes expo n =
      trimFixed (toFixed2 expo (real n / real (1024 ^ floorLog 1024 n))) @ '' '' @
      sizes ! floorLog 1024 n"
    using False i by (simp add: formatBytes_def sizeUnit_def Let_def)
  ultimately show ?thesis by blast
qed

lemma formatBytes_500000: "formatBytes expo 500000 = ''488.28 KB''"
  by (simp add: formatBytes_def floorLog.simps toFixed2_def roundHundredths_def fixedDigits_def padded_def
      natToString.simps digitChar_def trimFixed_def sizeUnit_def sizes_def Let_def)

text \<open>
  C5 (the code at 5 GiB). \<open>formatBytes(0)\<close> is the literal \<open>0 KB\<close>, but a count of
  \<open>1024^3\<close> bytes or more indexes \<open>sizes\<close> past its three entries: 5368709120 bytes are
  printed as \<open>5 undefined\<close>, which ends in none of Bytes, KB and MB.
\<close>

theorem formatBytes_5GiB_undefined:
  "formatBytes expo 0 = ''0 KB'' \<and>
   formatBytes expo 5368709120 = ''5 undefined'' \<and>
   \<not> (\<exists>p u. u \<in> set sizes \<and> formatBytes expo 5368709120 = p @ u)"
proof -
  have z: "formatBytes expo 0 = ''0 KB''" by (simp add: formatBytes_def)
  have g: "formatBytes expo 5368709120 = ''5 undefined''"
    by (simp add: formatBytes_def floorLog.simps toFixed2_def roundHundredths_def fixedDigits_def padded_def
        natToString.simps digitChar_def trimFixed_def sizeUnit_def sizes_def Let_def)
  have "''5 undefined'' \<noteq> p @ u" if "u \<in> set sizes" for p u
  proof
    assume e: "''5 undefined'' = p @ u"
    then have "last ''5 undefined'' = last (p @ u)" by simp
    moreover have "u \<noteq> []" using that by (auto simp: sizes_def)
    ultimately have "last u = CHR ''d''" by simp
    then show False using that by (auto simp: sizes_def)
  qed
  with z g show ?thesis by auto
qed

section \<open>The result renderer\<close>

lemma toFixed2_eval1: "toFixed2 expo (2469 / 2) = ''1234.50''"
  by (simp add: toFixed2_def roundHundredths_def fixedDigits_def padded_def natToString.simps
      digitChar_def Let_def)

lemma money_nonzero:
  assumes "x \<noteq> 0" "\<bar>x\<bar> < 10 ^ 21"
  shows "\<exists>f. money expo (Some x) ph = ''S/ '' @ f \<and> parseFixed2 f = Some (x < 0, \<bar>round2 x\<bar>)"
  using assms toFixed2_parse [of x expo] by (simp add: money_def)

lemma money_falsy: "money expo None ph = ph" "money expo (Some 0) ph = ph"
  by (simp_all add: money_def)

lemma money_not_null:
  assumes "ph \<noteq> []" "ph \<noteq> ''null''"
  shows "money expo v ph \<noteq> [] \<and> money expo v ph \<noteq> ''null''"
  using assms by (simp add: money_def split: option.splits)

lemma orElse_null: "(orElse a ''No detectado'' = ''null'') = (a = Some ''null'')"
  "(orElse a ''No detectada'' = ''null'') = (a = Some ''null'')"
  by (auto simp: orElse_def split: option.splits)



text \<open>
  C6, as stated, fails. In \<open>sampleZero\<close> the total and the subtotal are the number 0,
  which is not null, and both are rendered as \<open>No detectado\<close> instead of \<open>S/ 0.00\<close>.
\<close>

theorem zero_total_rendered_as_missing:
  "total' (totales sampleZero) = Some 0 \<and>
   totalText (renderExtracted noExpo sampleZero) = ''No detectado'' \<and>
   subtotal (totales sampleZero) = Some 0 \<and>
   subtotalText (renderExtracted noExpo sampleZero) = ''No detectado''"
  by (simp add: renderExtracted_def sampleZero_def money_def)

text \<open>
  The customer document of \<open>sampleZero\<close> is present with both of its parts null; the
  template literal prints each part as \<open>null\<close>. The statement below says nothing about
  such a document.
\<close>

lemma documento_null_parts:
  "documentoCell (renderExtracted expo sampleZero) = ''null: null''"
  by (simp add: renderExtracted_def sampleZero_def documentoText_def templateValue_def)

text \<open>
  C6, amended. A null number, issue date, tax id, customer name or customer document
  is rendered as the placeholder of its field (\<open>No detectado\<close>, \<open>No detectada\<close> for the
  date); a total that is null or zero is rendered as the placeholder of its field
  (\<open>No detectado\<close> for subtotal and total, \<open>No aplica\<close> for the tax); a total that is not
  zero and below \<open>10^21\<close> in magnitude is rendered as \<open>S/\<close>, a space, and the string that
  reads as \<open>round2\<close> of the value with the value's sign, which has exactly two decimals;
  the items section is left out exactly when there are no items. None of these texts is
  ever blank, no total is ever the text \<open>null\<close>, and the number, the date, the tax id
  and the name are the text \<open>null\<close> only when the service sent that very string.
\<close>

theorem renderExtracted_placeholders:
  fixes ed :: ExtractedData and expo :: "number \<Rightarrow> string" and x y z :: number
  defines "v \<equiv> renderExtracted expo ed"
  shows
  "(numero ed = None \<longrightarrow> numeroText v = ''No detectado'') \<and>
   (fecha_emision ed = None \<longrightarrow> fechaText v = ''No detectada'') \<and>
   (ruc (emisor ed) = None \<longrightarrow> rucText v = ''No detectado'') \<and>
   (nombre (cliente ed) = None \<longrightarrow> nombreText v = ''No detectado'') \<and>
   (documento (cliente ed) = None \<longrightarrow> documentoCell v = ''No detectado'') \<and>
   (subtotal (totales ed) = None \<or> subtotal (totales ed) = Some 0
      \<longrightarrow> subtotalText v = ''No detectado'') \<and>
   (igv (totales ed) = None \<or> igv (totales ed) = Some 0 \<longrightarrow> igvText v = ''No aplica'') \<and>
   (total' (totales ed) = None \<or> total' (totales ed) = Some 0
      \<longrightarrow> totalText v = ''No detectado'') \<and>
   (subtotal (totales ed) = Some x \<and> x \<noteq> 0 \<and> \<bar>x\<bar> < 10 ^ 21 \<longrightarrow>
      (\<exists>f. subtotalText v = ''S/ '' @ f \<and> parseFixed2 f = Some (x < 0, \<bar>round2 x\<bar>))) \<and>
   (igv (totales ed) = Some y \<and> y \<noteq> 0 \<and> \<bar>y\<bar> < 10 ^ 21 \<longrightarrow>
      (\<exists>f. igvText v = ''S/ '' @ f \<and> parseFixed2 f = Some (y < 0, \<bar>round2 y\<bar>))) \<and>
   (total' (totales ed) = Some z \<and> z \<noteq> 0 \<and> \<bar>z\<bar> < 10 ^ 21 \<longrightarrow>
      (\<exists>f. totalText v = ''S/ '' @ f \<and> parseFixed2 f = Some (z < 0, \<bar>round2 z\<bar>))) \<and>
   ((itemsSection v = None) = (items ed = [])) \<and>
   numeroText v \<noteq> [] \<and> fechaText v \<noteq> [] \<and> rucText v \<noteq> [] \<and> nombreText v \<noteq> [] \<and>
   documentoCell v \<noteq> [] \<and> subtotalText v \<noteq> [] \<and> igvText v \<noteq> [] \<and> totalText v \<noteq> [] \<and>
   subtotalText v \<noteq> ''null'' \<and> igvText v \<noteq> ''null'' \<and> totalText v \<noteq> ''null'' \<and>
   ((numeroText v = ''null'') = (numero ed = Some ''null'')) \<and>
   ((fechaText v = ''null'') = (fecha_emision ed = Some ''null'')) \<and>
   ((rucText v = ''null'') = (ruc (emisor ed) = Some ''null'')) \<and>
   ((nombreText v = ''null'') = (nombre (cliente ed) = Some ''null''))"
proof -
  have s: "subtotalText v = money expo (subtotal (totales ed)) ''No detectado''"
    and i: "igvText v = money expo (igv (totales ed)) ''No aplica''"
    and t: "totalText v = money expo (total' (totales ed)) ''No detectado''"
    by (simp_all add: v_def renderExtracted_def)
  have a: "(numero ed = None \<longrightarrow> numeroText v = ''No detectado'') \<and>
   (fecha_emision ed = None \<longrightarrow> fechaText v = ''No detectada'') \<and>
   (ruc (emisor ed) = None \<longrightarrow> rucText v = ''No detectado'') \<and>
   (nombre (cliente ed) = None \<longrightarrow> nombreText v = ''No detectado'') \<and>
   (documento (cliente ed) = None \<longrightarrow> documentoCell v = ''No detectado'')"
    by (simp add: v_def renderExtracted_def orElse_def documentoText_def)
  have b: "(subtotal (totales ed) = None \<or> subtotal (totales ed) = Some 0
      \<longrightarrow> subtotalText v = ''No detectado'') \<and>
   (igv (totales ed) = None \<or> igv (totales ed) = Some 0 \<longrightarrow> igvText v = ''No aplica'') \<and>
   (total' (totales ed) = None \<or> total' (totales ed) = Some 0
      \<longrightarrow> totalText v = ''No detectado'')"
    using money_falsy by (auto simp: s i t)
  have c: "(subtotal (totales ed) = Some x \<and> x \<noteq> 0 \<and> \<bar>x\<bar> < 10 ^ 21 \<longrightarrow>
      (\<exists>f. subtotalText v = ''S/ '' @ f \<and> parseFixed2 f = Some (x < 0, \<bar>round2 x\<bar>)))"
    using money_nonzero [of x expo "''No detectado''"] by (auto simp: s)
  have d: "(igv (totales ed) = Some y \<and> y \<noteq> 0 \<and> \<bar>y\<bar> < 10 ^ 21 \<longrightarrow>
      (\<exists>f. igvText v = ''S/ '' @ f \<and> parseFixed2 f = Some (y < 0, \<bar>round2 y\<bar>)))"
    using money_nonzero [of y expo "''No aplica''"] by (auto simp: i)
  have e: "(total' (totales ed) = Some z \<and> z \<noteq> 0 \<and> \<bar>z\<bar> < 10 ^ 21 \<longrightarrow>
      (\<exists>f. totalText v = ''S/ '' @ f \<and> parseFixed2 f = Some (z < 0, \<bar>round2 z\<bar>)))"
    using money_nonzero [of z expo "''No detectado''"] by (auto simp: t)
  have f: "(itemsSection v = None) = (items ed = [])"
    by (simp add: v_def renderExtracted_def)
  have g: "numeroText v \<noteq> [] \<and> fechaText v \<noteq> [] \<and> rucText v \<noteq> [] \<and> nombreText v \<noteq> [] \<and>
   documentoCell v \<noteq> []"
    by (simp add: v_def renderExtracted_def orElse_def documentoText_def
        split: option.splits)
  have h: "subtotalText v \<noteq> [] \<and> igvText v \<noteq> [] \<and> totalText v \<noteq> [] \<and>
   subtotalText v \<noteq> ''null'' \<and> igvText v \<noteq> ''null'' \<and> totalText v \<noteq> ''null''"
    using money_not_null [of "''No detectado''" expo] money_not_null [of "''No aplica''" expo]
    by (simp add: s i t)
  have k: "((numeroText v = ''null'') = (numero ed = Some ''null'')) \<and>
   ((fechaText v = ''null'') = (fecha_emision ed = Some ''null'')) \<and>
   ((rucText v = ''null'') = (ruc (emisor ed) = Some ''null'')) \<and>
   ((nombreText v = ''null'') = (nombre (cliente ed) = Some ''null''))"
    by (simp add: v_def renderExtracted_def orElse_null)
  show ?thesis using a b c d e f g h k by simp
qed

text \<open>
  The amended C6 at \<open>sampleEmpty\<close>, where every nullable field is null, the tax is
  zero and there are no items, and at \<open>sampleFull\<close>, where every field is present.
\<close>

theorem renderExtracted_placeholders_witness:
  "numeroText (renderExtracted noExpo sampleEmpty) = ''No detectado'' \<and>
   fechaText (renderExtracted noExpo sampleEmpty) = ''No detectada'' \<and>
   rucText (renderExtracted noExpo sampleEmpty) = ''No detectado'' \<and>
   nombreText (renderExtracted noExpo sampleEmpty) = ''No detectado'' \<and>
   documentoCell (renderExtracted noExpo sampleEmpty) = ''No detectado'' \<and>
   subtotalText (renderExtracted noExpo sampleEmpty) = ''No detectado'' \<and>
   igvText (renderExtracted noExpo sampleEmpty) = ''No aplica'' \<and>
   totalText (renderExtracted noExpo sampleEmpty) = ''S/ 1234.50'' \<and>
   itemsSection (renderExtracted noExpo sampleEmpty) = None \<and>
   subtotalText (renderExtracted noExpo sampleFull) = ''S/ 100.00'' \<and>
   igvText (renderExtracted noExpo sampleFull) = ''S/ 18.00'' \<and>
   totalText (renderExtracted noExpo sampleFull) = ''S/ 118.00'' \<and>
   parseFixed2 ''1234.50'' = Some (False, \<bar>round2 (2469 / 2)\<bar>) \<and>
   parseFixed2 ''100.00'' = Some (False, \<bar>round2 100\<bar>) \<and>
   parseFixed2 ''18.00'' = Some (False, \<bar>round2 18\<bar>) \<and>
   parseFixed2 ''118.00'' = Some (False, \<bar>round2 118\<bar>) \<and>
   itemsSection (renderExtracted noExpo sampleFull) \<noteq> None"
proof -
  have n: "numero sampleEmpty = None" "fecha_emision sampleEmpty = None"
    "ruc (emisor sampleEmpty) = None" "nombre (cliente sampleEmpty) = None"
    "documento (cliente sampleEmpty) = None" "subtotal (totales sampleEmpty) = None"
    "igv (totales sampleEmpty) = Some 0" "items sampleEmpty = []"
    "total' (totales sampleEmpty) = Some (2469 / 2)"
    by (simp_all add: sampleEmpty_def)
  have m: "subtotal (totales sampleFull) = Some 100" "igv (totales sampleFull) = Some 18"
    "total' (totales sampleFull) = Some 118" "items sampleFull \<noteq> []"
    by (simp_all add: sampleFull_def)
  have r: "(2469 / 2 :: real) \<noteq> 0" "\<bar>2469 / 2 :: real\<bar> < 10 ^ 21"
    "\<bar>100 :: real\<bar> < 10 ^ 21" "\<bar>18 :: real\<bar> < 10 ^ 21" "\<bar>118 :: real\<bar> < 10 ^ 21"
    by simp_all
  have e: "toFixed2 noExpo 100 = ''100.00''" "toFixed2 noExpo 18 = ''18.00''"
    "toFixed2 noExpo 118 = ''118.00''"
    by (simp_all add: toFixed2_def roundHundredths_def fixedDigits_def padded_def
        natToString.simps digitChar_def Let_def)
  have v: "totalText (renderExtracted noExpo sampleEmpty) = ''S/ 1234.50''"
    "subtotalText (renderExtracted noExpo sampleFull) = ''S/ 100.00''"
    "igvText (renderExtracted noExpo sampleFull) = ''S/ 18.00''"
    "totalText (renderExtracted noExpo sampleFull) = ''S/ 118.00''"
    by (simp_all add: renderExtracted_def money_def toFixed2_eval1 e n m)
  show ?thesis
    using renderExtracted_placeholders [of sampleEmpty noExpo 1 1 "2469 / 2"]
      renderExtracted_placeholders [of sampleFull noExpo 100 18 118] n m r v
    by simp
qed






section \<open>Events and reachable states\<close>

lemma resume_cases:
  "resume expo t out s = Some r \<Longrightarrow>
     (\<exists>n. t = GetUserMedia \<and> out = MediaGranted n \<and> r = activateCamera_resumed out s) \<or>
     (t = GetUserMedia \<and> out = MediaDenied \<and> r = activateCamera_resumed out s) \<or>
     (\<exists>b. t = ToBlob \<and> out = BlobReady b \<and> r = (toBlobCallback b s, [])) \<or>
     (\<exists>f d. t = ReadAsDataURL f \<and> out = ReadDone d \<and> r = (onloadend expo f d s, [])) \<or>
     (\<exists>pf ok. t = AwaitFetch pf \<and> out = FetchDone ok \<and> r = processDocument_fetched ok pf s) \<or>
     (\<exists>pf. t = AwaitPost pf \<and> (\<exists>b. out = PostResolved b \<or> (\<exists>m. out = PostRejected m)) \<and> r = processDocument_posted out s)"
  by (cases t; cases out) auto

lemma camera_mode_unreachable:
  assumes "reachable expo s"
  shows "videoRef s = None \<and> \<not> isCameraActive s"
  using assms
proof (induction rule: reachable.induct)
  case reach_initial
  then show ?case by (simp add: initial_def)
next
  case (reach_step s e)
  show ?case
  proof (cases e)
    case ClickCamara
    then show ?thesis using reach_step.IH by (simp add: step_def commit_def activateCamera_def)
  next
    case (ClickCapturar ctx)
    then show ?thesis using reach_step.IH by (simp add: step_def)
  next
    case (ChooseFile f)
    then show ?thesis using reach_step.IH
      by (simp add: step_def commit_def handleFileUpload_def handleFileSelect_def
          split: option.splits)
  next
    case ClickProcesar
    then show ?thesis using reach_step.IH
      by (simp add: step_def commit_def processDocument_def split: option.splits)
  next
    case (Settle i out)
    show ?thesis
    proof (cases "i < length (pending s)")
      case False
      then show ?thesis using Settle reach_step.IH by (simp add: step_def)
    next
      case True
      show ?thesis
      proof (cases "resume expo (pending s ! i) out (s\<lparr>pending := removeAt i (pending s)\<rparr>)")
        case None
        then show ?thesis using Settle True reach_step.IH by (simp add: step_def)
      next
        case (Some r)
        obtain s1 fx where r: "r = (s1, fx)" by (cases r)
        have st: "fst (step expo e s) = commit s1"
          using Settle True Some r by (simp add: step_def)
        have "videoRef s1 = None \<and> \<not> isCameraActive s1"
          using resume_cases [OF Some] reach_step.IH r
          by (auto simp: activateCamera_resumed_def toBlobCallback_def handleFileSelect_def
              onloadend_def processDocument_fetched_def processDocument_posted_def
              catchFinally_def split: option.splits if_splits)
        then show ?thesis using st by (simp add: commit_def)
      qed
    qed
  qed
qed

section \<open>The camera\<close>

text \<open>
  C9. When \<open>getUserMedia\<close> rejects, \<open>activateCamera\<close> leaves every part of the state as
  it was and reports the failure on the console and in an alert. From the initial page, a
  click on the camera button followed by the rejection ends in the initial state again:
  the camera flag is off, no video element and no stream exist, no file is selected.
\<close>

theorem camera_denied_stays_idle:
  "activateCamera_resumed MediaDenied s =
     (s, [ConsoleError (''Error al acceder a la c'' @ [CHR 0xE1] @ ''mara:''),
          Alert (''No se pudo acceder a la c'' @ [CHR 0xE1] @ ''mara'')]) \<and>
   step expo (Settle 0 MediaDenied) (fst (step expo ClickCamara initial)) =
     (initial, [ConsoleError (''Error al acceder a la c'' @ [CHR 0xE1] @ ''mara:''),
                Alert (''No se pudo acceder a la c'' @ [CHR 0xE1] @ ''mara'')])"
  by (simp add: activateCamera_resumed_def step_def initial_def activateCamera_def commit_def
      removeAt_def)

lemma granted_without_video:
  assumes "videoRef s = None"
  shows "activateCamera_resumed (MediaGranted n) s =
           (s\<lparr>streams := streams s @ [replicate n True]\<rparr>, [])"
  using assms by (simp add: activateCamera_resumed_def Let_def)

text \<open>
  C3 (the code at a granted request). From the initial page, a click on the camera button
  followed by a grant of a stream with one track ends with that track live, the camera
  flag off and no video element: \<open>videoRef.current\<close> is null until the flag is on, so
  the branch that would bind the stream and set the flag is skipped, and nothing stops
  the stream or refers to it.
\<close>

theorem granted_stream_left_live_and_unbound: "step expo (Settle 0 (MediaGranted 1)) (fst (step expo ClickCamara initial)) =
     (initial\<lparr>streams := [[True]]\<rparr>, []) \<and>
   \<not> isCameraActive (initial\<lparr>streams := [[True]]\<rparr>) \<and>
   videoRef (initial\<lparr>streams := [[True]]\<rparr>) = None \<and>
   pending (initial\<lparr>streams := [[True]]\<rparr>) = []"
  by (simp add: activateCamera_resumed_def step_def initial_def activateCamera_def commit_def removeAt_def)


lemma stopTracks_stopped:
  assumes "i < length ss"
  shows "True \<notin> set (stopTracks i ss ! i)"
  using assms by (auto simp: stopTracks_def)

text \<open>
  What \<open>captureImage\<close> does where the video element is mounted and shows stream \<open>i\<close>:
  it stops every track of the stream and clears the flag.
\<close>

lemma captureImage_stops_bound_stream:
  assumes "videoRef s = Some v" and "srcObject v = Some i" and "i < length (streams s)"
  shows "True \<notin> set (streams (captureImage ctx s) ! i) \<and> \<not> isCameraActive (captureImage ctx s)"
  using assms stopTracks_stopped [of i "streams s"] by (simp add: captureImage_def Let_def)

text \<open>
  The page never gets there: in every reachable state the capture button is not rendered,
  so a capture does nothing, and no track of any stream has been stopped.
\<close>

lemma capture_click_noop:
  assumes "reachable expo s"
  shows "step expo (ClickCapturar ctx) s = (s, [])"
  using camera_mode_unreachable [OF assms] by (simp add: step_def)

lemma no_track_stopped:
  assumes "reachable expo s"
  shows "False \<notin> set (concat (streams s))"
  using assms
proof (induction rule: reachable.induct)
  case reach_initial
  then show ?case by (simp add: initial_def)
next
  case (reach_step s e)
  have cam: "videoRef s = None \<and> \<not> isCameraActive s"
    using reach_step.hyps by (rule camera_mode_unreachable)
  show ?case
  proof (cases e)
    case ClickCamara
    then show ?thesis using reach_step.IH by (simp add: step_def commit_def activateCamera_def)
  next
    case (ClickCapturar ctx)
    then show ?thesis using reach_step.IH cam by (simp add: step_def)
  next
    case (ChooseFile f)
    then show ?thesis using reach_step.IH
      by (simp add: step_def commit_def handleFileUpload_def handleFileSelect_def
          split: option.splits)
  next
    case ClickProcesar
    then show ?thesis using reach_step.IH
      by (simp add: step_def commit_def processDocument_def split: option.splits)
  next
    case (Settle i out)
    show ?thesis
    proof (cases "i < length (pending s)")
      case False
      then show ?thesis using Settle reach_step.IH by (simp add: step_def)
    next
      case True
      show ?thesis
      proof (cases "resume expo (pending s ! i) out (s\<lparr>pending := removeAt i (pending s)\<rparr>)")
        case None
        then show ?thesis using Settle True reach_step.IH by (simp add: step_def)
      next
        case (Some r)
        obtain s1 fx where r: "r = (s1, fx)" by (cases r)
        have st: "fst (step expo e s) = commit s1"
          using Settle True Some r by (simp add: step_def)
        have "False \<notin> set (concat (streams s1))"
          using resume_cases [OF Some] reach_step.IH r cam
          by (auto simp: activateCamera_resumed_def toBlobCallback_def handleFileSelect_def
              onloadend_def processDocument_fetched_def processDocument_posted_def
              catchFinally_def Let_def split: option.splits if_splits)
        then show ?thesis using st by (simp add: commit_def)
      qed
    qed
  qed
qed

text \<open>
  C2 (the code after a granted request and a picked file). From the initial page, a click
  on the camera button, a grant of a stream with one track, and the choice and the read
  of \<open>sampleFile\<close> end in \<open>sampleLeaked\<close>: a file is selected while the track of the
  stream is still live. The camera flag is off there, so the capture button is not
  rendered and a capture does nothing: nothing on the page stops the stream.
\<close>

theorem input_with_stream_still_running:
  "fst (step expo (Settle 0 (ReadDone ''data:image/jpeg;base64,AAAA''))
     (fst (step expo (ChooseFile (Some sampleFile))
       (fst (step expo (Settle 0 (MediaGranted 1))
         (fst (step expo ClickCamara initial))))))) = sampleLeaked \<and>
   selectedFile sampleLeaked \<noteq> None \<and>
   streams sampleLeaked = [[True]] \<and>
   \<not> isCameraActive sampleLeaked \<and>
   step expo (ClickCapturar ctx) sampleLeaked = (sampleLeaked, [])"
  by (simp add: step_def initial_def activateCamera_def commit_def removeAt_def
      activateCamera_resumed_def handleFileUpload_def handleFileSelect_def sampleFile_def
      onloadend_def formatBytes_500000 sampleLeaked_def Let_def)

section \<open>Submission\<close>

text \<open>
  C1 (the code at the error envelope). A resolved POST whose body is
  \<open>{status: "error", message: "bad file"}\<close> does not set \<open>result\<close>, but the alert shows
  the generic text and not \<open>bad file\<close>: the \<open>Error\<close> thrown with the server's message
  has no \<open>response\<close>, which is where the \<open>catch\<close> block looks for a message.
\<close>

theorem error_envelope_alerts_fallback:
  "processDocument_posted
     (PostResolved \<lparr>status = Some ''error'', message = Some ''bad file'', data = None\<rparr>) s =
     (s\<lparr>isProcessing := False\<rparr>,
      [ConsoleError ''Error al procesar el documento:'', Alert ''Error al procesar el documento'']) \<and>
   Alert ''bad file'' \<notin> set (snd (processDocument_posted
     (PostResolved \<lparr>status = Some ''error'', message = Some ''bad file'', data = None\<rparr>) s))"
  by (simp add: processDocument_posted_def catchFinally_def userMessage_def fallback_def)

text \<open>
  C8 (the code on its failure paths). Every failure clears \<open>isProcessing\<close> and changes
  nothing else, so \<open>selectedFile\<close> is kept; a rejected POST alerts the server's message
  when there is a non-empty one and the generic text otherwise, and a failed read of the
  preview alerts the generic text. An error envelope in a resolved POST alerts the
  generic text although the server's message \<open>unsupported format\<close> is present.
\<close>

theorem submission_failure_paths:
  "processDocument_posted (PostRejected m) s =
     (s\<lparr>isProcessing := False\<rparr>,
      [ConsoleError ''Error al procesar el documento:'', Alert (orElse m fallback)]) \<and>
   processDocument_fetched False pf s =
     (s\<lparr>isProcessing := False\<rparr>,
      [ConsoleError ''Error al procesar el documento:'', Alert fallback]) \<and>
   processDocument_posted
     (PostResolved \<lparr>status = Some ''error'', message = Some ''unsupported format'', data = d\<rparr>) s =
     (s\<lparr>isProcessing := False\<rparr>,
      [ConsoleError ''Error al procesar el documento:'', Alert fallback]) \<and>
   fallback \<noteq> ''unsupported format'' \<and>
   selectedFile (s\<lparr>isProcessing := False\<rparr>) = selectedFile s"
  by (simp add: processDocument_posted_def processDocument_fetched_def catchFinally_def
      userMessage_def fallback_def)

lemma filter_removeAt:
  assumes "i < length ps"
  shows "length (filter P (removeAt i ps)) + (if P (ps ! i) then 1 else 0) = length (filter P ps)"
proof -
  have "ps = take i ps @ ps ! i # drop (Suc i) ps"
    using assms by (rule id_take_nth_drop)
  then have "filter P ps = filter P (take i ps) @ filter P [ps ! i] @ filter P (drop (Suc i) ps)"
    by (metis append_Cons append_Nil filter_append)
  then show ?thesis by (simp add: removeAt_def)
qed

lemma commit_keeps: "pending (commit s) = pending s" "isProcessing (commit s) = isProcessing s"
  by (simp_all add: commit_def)

lemma inFlight_invariant:
  assumes "reachable expo s"
  shows "inFlight s = (if isProcessing s then 1 else 0)"
  using assms
proof (induction rule: reachable.induct)
  case reach_initial
  then show ?case by (simp add: initial_def inFlight_def)
next
  case (reach_step s e)
  show ?case
  proof (cases e)
    case ClickCamara
    then show ?thesis using reach_step.IH
      by (auto simp: step_def commit_keeps inFlight_def activateCamera_def split: if_splits)
  next
    case (ClickCapturar ctx)
    then show ?thesis using reach_step.IH
      by (auto simp: step_def commit_keeps inFlight_def captureImage_def Let_def
          split: option.splits if_splits)
  next
    case (ChooseFile f)
    then show ?thesis using reach_step.IH
      by (auto simp: step_def commit_keeps inFlight_def handleFileUpload_def handleFileSelect_def
          split: option.splits if_splits)
  next
    case ClickProcesar
    then show ?thesis using reach_step.IH
      by (auto simp: step_def commit_keeps inFlight_def processDocument_def
          split: option.splits if_splits)
  next
    case (Settle i out)
    show ?thesis
    proof (cases "i < length (pending s)")
      case False
      then show ?thesis using Settle reach_step.IH by (simp add: step_def)
    next
      case True
      define s0 where "s0 = s\<lparr>pending := removeAt i (pending s)\<rparr>"
      show ?thesis
      proof (cases "resume expo (pending s ! i) out s0")
        case None
        then show ?thesis using Settle True reach_step.IH by (simp add: step_def s0_def)
      next
        case (Some r)
        obtain s1 fx where r: "r = (s1, fx)" by (cases r)
        have st: "fst (step expo e s) = commit s1"
          using Settle True Some r by (simp add: step_def s0_def)
        have rm: "inFlight s0 + (if isSubmission (pending s ! i) then 1 else 0) = inFlight s"
          using filter_removeAt [OF True, of isSubmission] by (simp add: inFlight_def s0_def)
        have p0: "isProcessing s0 = isProcessing s" by (simp add: s0_def)
        have "inFlight s1 = (if isProcessing s1 then 1 else 0)"
          using resume_cases [OF Some] reach_step.IH r rm p0
          by (auto simp: activateCamera_resumed_def toBlobCallback_def handleFileSelect_def
              onloadend_def processDocument_fetched_def processDocument_posted_def
              catchFinally_def inFlight_def Let_def split: option.splits if_splits)
        then show ?thesis using st by (simp add: inFlight_def commit_keeps)
      qed
    qed
  qed
qed

text \<open>
  C4. In every state the page can reach at most one submission is under way, and while
  \<open>isProcessing\<close> holds a click on the process button, which is disabled then, changes
  nothing and has no effect: no request is started.
\<close>

theorem single_flight_submission:
  assumes "reachable expo s"
  shows "inFlight s \<le> 1 \<and> (isProcessing s \<longrightarrow> step expo ClickProcesar s = (s, []))"
  using inFlight_invariant [OF assms] by (simp add: step_def)

lemma sampleSubmitting_eq:
  "sampleSubmitting =
     \<lparr>selectedFile = Some \<lparr>name = ''recibo.jpg'', type' = ''image/jpeg'', size' = ''488.28 KB'',
                            preview = ''data:image/jpeg;base64,AAAA''\<rparr>,
      isProcessing = True, result = None, isCameraActive = False, videoRef = None,
      streams = [],
      pending = [AwaitFetch \<lparr>name = ''recibo.jpg'', type' = ''image/jpeg'', size' = ''488.28 KB'',
                            preview = ''data:image/jpeg;base64,AAAA''\<rparr>]\<rparr>"
  by (simp add: sampleSubmitting_def step_def initial_def commit_def handleFileUpload_def
      handleFileSelect_def sampleFile_def removeAt_def onloadend_def formatBytes_500000
      processDocument_def)

text \<open>C4 at \<open>sampleSubmitting\<close>, a reachable state with a submission under way.\<close>

theorem single_flight_submission_witness:
  "reachable noExpo sampleSubmitting \<and> isProcessing sampleSubmitting \<and>
   inFlight sampleSubmitting \<le> 1 \<and>
   step noExpo ClickProcesar sampleSubmitting = (sampleSubmitting, [])"
proof -
  have r: "reachable noExpo sampleSubmitting"
    unfolding sampleSubmitting_def
    by (intro reachable.reach_step reachable.reach_initial)
  have p: "isProcessing sampleSubmitting" by (simp add: sampleSubmitting_eq)
  show ?thesis using single_flight_submission [OF r] r p by simp
qed


end
